theory Spec2Isabelle
  imports Main
begin

section \<open>The CSS selector builder of \<^verbatim>\<open>05-objects-tasks.js\<close>\<close>

subsection \<open>Data\<close>

text \<open>
  The array \<^verbatim>\<open>this.selectors\<close> holds three sorts of JavaScript values:
  \<^item> object literals \<^verbatim>\<open>{ type: t, value: v }\<close>, and \<^verbatim>\<open>{ value: v }\<close> for the seed of a
    combined selector, whose \<^verbatim>\<open>type\<close> is then \<^verbatim>\<open>undefined\<close> (\<open>None\<close>);
  \<^item> numbers: \<^verbatim>\<open>pseudoClass\<close> pushes the return value of an inner \<^verbatim>\<open>push\<close>, the new length;
  \<^item> strings: the method \<^verbatim>\<open>combine\<close> pushes a concatenation.
  Reading \<^verbatim>\<open>type\<close> or \<^verbatim>\<open>value\<close> of a number or a string gives \<^verbatim>\<open>undefined\<close>.
  The values handed to the builder are strings.
\<close>

datatype entry = Obj "string option" string | Num nat | Str string

fun type_of :: "entry \<Rightarrow> string option" where
  "type_of (Obj t v) = t"
| "type_of (Num n) = None"
| "type_of (Str s) = None"

fun value_of :: "entry \<Rightarrow> string option" where
  "value_of (Obj t v) = Some v"
| "value_of (Num n) = None"
| "value_of (Str s) = None"

text \<open>
  Both errors of the class are \<^verbatim>\<open>Error\<close> objects told apart by their message:
  \<open>DuplicateSingletonError\<close> is "Element, id and pseudo-element should not occur more then
  one time inside the selector", \<open>OrderViolationError\<close> is "Selector parts should be arranged
  in the following order: ...". \<open>TypeError\<close> is what the runtime throws when
  \<^verbatim>\<open>includes\<close> is read from \<^verbatim>\<open>undefined\<close>.
\<close>

datatype error = DuplicateSingletonError | OrderViolationError | TypeError

text \<open>
  The fields of a \<^verbatim>\<open>CssSelectorBuilder\<close>. \<^verbatim>\<open>avalableSelectors\<close> is \<^verbatim>\<open>undefined\<close>
  (\<open>None\<close>) or an array of type names. The third field, \<^verbatim>\<open>avalableSelectorsMap\<close>, is the
  same object literal in every instance and is never assigned again, so it is a constant.
\<close>

record builder =
  selectors :: "entry list"
  avalableSelectors :: "string list option"

definition avalableSelectorsMap :: "string \<rightharpoonup> string list" where
  "avalableSelectorsMap =
     [''element'' \<mapsto> [''element'', ''id'', ''class'', ''attr'', ''pseudoClass'', ''pseudoElement''],
      ''id'' \<mapsto> [''id'', ''class'', ''attr'', ''pseudoClass'', ''pseudoElement''],
      ''class'' \<mapsto> [''class'', ''attr'', ''pseudoClass'', ''pseudoElement''],
      ''attr'' \<mapsto> [''attr'', ''pseudoClass'', ''pseudoElement''],
      ''pseudoClass'' \<mapsto> [''pseudoClass'', ''pseudoElement''],
      ''pseudoElement'' \<mapsto> []]"

subsection \<open>The class\<close>

text \<open>
  The constructor. The facade is its only caller and seeds it with one of the six type
  names, or with no \<^verbatim>\<open>type\<close> at all: \<^verbatim>\<open>avalableSelectorsMap[undefined]\<close> finds no key and
  leaves \<^verbatim>\<open>avalableSelectors\<close> \<^verbatim>\<open>undefined\<close>.
\<close>

definition CssSelectorBuilder :: "entry \<Rightarrow> builder" where
  "CssSelectorBuilder selector =
     \<lparr>selectors = [selector],
      avalableSelectors =
        (case type_of selector of None \<Rightarrow> None | Some t \<Rightarrow> avalableSelectorsMap t)\<rparr>"

text \<open>
  A method takes the receiver's state and gives the outcome together with the state it
  leaves behind: \<open>None\<close> when it returns \<^verbatim>\<open>this\<close>, \<open>Some e\<close> when it throws \<open>e\<close>. The
  statements are in the order of the source, so the state beside a thrown error is the
  state at the \<^verbatim>\<open>throw\<close>.
\<close>

definition element :: "string \<Rightarrow> builder \<Rightarrow> error option \<times> builder" where
  "element v this =
     (let isOccur = find (\<lambda>e. type_of e = Some ''element'') (selectors this) in
      if isOccur \<noteq> None then (Some DuplicateSingletonError, this)
      else case avalableSelectors this of
        None \<Rightarrow> (Some TypeError, this)
      | Some av \<Rightarrow>
          if ''element'' \<notin> set av then (Some OrderViolationError, this)
          else (None, this\<lparr>selectors := selectors this @ [Obj (Some ''element'') v]\<rparr>))"

definition id_sel :: "string \<Rightarrow> builder \<Rightarrow> error option \<times> builder" where
  "id_sel v this =
     (let isOccur = find (\<lambda>e. type_of e = Some ''id'') (selectors this) in
      if isOccur \<noteq> None then (Some DuplicateSingletonError, this)
      else case avalableSelectors this of
        None \<Rightarrow> (Some TypeError, this)
      | Some av \<Rightarrow>
          if ''id'' \<notin> set av then (Some OrderViolationError, this)
          else
            let this1 = this\<lparr>avalableSelectors := avalableSelectorsMap ''id''\<rparr> in
            (None, this1\<lparr>selectors := selectors this1 @ [Obj (Some ''id'') (''#'' @ v)]\<rparr>))"

definition class_sel :: "string \<Rightarrow> builder \<Rightarrow> error option \<times> builder" where
  "class_sel v this =
     (case avalableSelectors this of
        None \<Rightarrow> (Some TypeError, this)
      | Some av \<Rightarrow>
          if ''class'' \<notin> set av then (Some OrderViolationError, this)
          else
            let this1 = this\<lparr>avalableSelectors := avalableSelectorsMap ''class''\<rparr> in
            (None, this1\<lparr>selectors := selectors this1 @ [Obj (Some ''class'') (''.'' @ v)]\<rparr>))"

definition attr :: "string \<Rightarrow> builder \<Rightarrow> error option \<times> builder" where
  "attr v this =
     (case avalableSelectors this of
        None \<Rightarrow> (Some TypeError, this)
      | Some av \<Rightarrow>
          if ''attr'' \<notin> set av then (Some OrderViolationError, this)
          else
            let this1 = this\<lparr>avalableSelectors := avalableSelectorsMap ''attr''\<rparr> in
            (None, this1\<lparr>selectors := selectors this1 @ [Obj (Some ''attr'') (''['' @ v @ '']'')]\<rparr>))"

text \<open>
  \<^verbatim>\<open>this.selectors.push(this.selectors.push({...}))\<close>: the inner call appends the object and
  returns the new length, which the outer call appends as well.
\<close>

definition pseudoClass :: "string \<Rightarrow> builder \<Rightarrow> error option \<times> builder" where
  "pseudoClass v this =
     (case avalableSelectors this of
        None \<Rightarrow> (Some TypeError, this)
      | Some av \<Rightarrow>
          if ''pseudoClass'' \<notin> set av then (Some OrderViolationError, this)
          else
            let this1 = this\<lparr>avalableSelectors := avalableSelectorsMap ''pseudoClass''\<rparr>;
                this2 = this1\<lparr>selectors := selectors this1 @ [Obj (Some ''pseudoClass'') ('':'' @ v)]\<rparr>;
                n = length (selectors this2)
            in (None, this2\<lparr>selectors := selectors this2 @ [Num n]\<rparr>))"

definition pseudoElement :: "string \<Rightarrow> builder \<Rightarrow> error option \<times> builder" where
  "pseudoElement v this =
     (let isOccur = find (\<lambda>e. type_of e = Some ''pseudoElement'') (selectors this) in
      if isOccur \<noteq> None then (Some DuplicateSingletonError, this)
      else case avalableSelectors this of
        None \<Rightarrow> (Some TypeError, this)
      | Some av \<Rightarrow>
          if ''pseudoElement'' \<notin> set av then (Some OrderViolationError, this)
          else
            let this1 = this\<lparr>avalableSelectors := Some []\<rparr> in
            (None, this1\<lparr>selectors := selectors this1 @ [Obj (Some ''pseudoElement'') (''::'' @ v)]\<rparr>))"

text \<open>The method \<^verbatim>\<open>combine\<close> of the class, on string arguments; it cannot throw.\<close>

definition combine :: "string \<Rightarrow> string \<Rightarrow> string \<Rightarrow> builder \<Rightarrow> builder" where
  "combine selector1 combinator selector2 this =
     this\<lparr>selectors := selectors this @ [Str (selector1 @ combinator @ selector2)]\<rparr>"

text \<open>
  \<^verbatim>\<open>join('')\<close> writes an \<^verbatim>\<open>undefined\<close> element as the empty string.
\<close>

fun join_empty :: "string option list \<Rightarrow> string" where
  "join_empty [] = []"
| "join_empty (None # xs) = join_empty xs"
| "join_empty (Some s # xs) = s @ join_empty xs"

definition stringify :: "builder \<Rightarrow> string" where
  "stringify this = join_empty (map value_of (selectors this))"

subsection \<open>The facade \<^verbatim>\<open>cssSelectorBuilder\<close>\<close>

definition cssSelectorBuilder_element :: "string \<Rightarrow> builder" where
  "cssSelectorBuilder_element v = CssSelectorBuilder (Obj (Some ''element'') v)"

definition cssSelectorBuilder_id :: "string \<Rightarrow> builder" where
  "cssSelectorBuilder_id v = CssSelectorBuilder (Obj (Some ''id'') (''#'' @ v))"

definition cssSelectorBuilder_class :: "string \<Rightarrow> builder" where
  "cssSelectorBuilder_class v = CssSelectorBuilder (Obj (Some ''class'') (''.'' @ v))"

definition cssSelectorBuilder_attr :: "string \<Rightarrow> builder" where
  "cssSelectorBuilder_attr v = CssSelectorBuilder (Obj (Some ''attr'') (''['' @ v @ '']''))"

definition cssSelectorBuilder_pseudoClass :: "string \<Rightarrow> builder" where
  "cssSelectorBuilder_pseudoClass v = CssSelectorBuilder (Obj (Some ''pseudoClass'') ('':'' @ v))"

definition cssSelectorBuilder_pseudoElement :: "string \<Rightarrow> builder" where
  "cssSelectorBuilder_pseudoElement v =
     CssSelectorBuilder (Obj (Some ''pseudoElement'') (''::'' @ v))"

definition cssSelectorBuilder_combine :: "builder \<Rightarrow> string \<Rightarrow> builder \<Rightarrow> builder" where
  "cssSelectorBuilder_combine selector1 combinator selector2 =
     CssSelectorBuilder
       (Obj None (stringify selector1 @ '' '' @ combinator @ '' '' @ stringify selector2))"

subsection \<open>Calls and call sequences\<close>

text \<open>The six fragment operations, as a caller names them.\<close>

datatype op = Element | Id | Class | Attr | PseudoClass | PseudoElement

fun call :: "op \<Rightarrow> string \<Rightarrow> builder \<Rightarrow> error option \<times> builder" where
  "call Element v this = element v this"
| "call Id v this = id_sel v this"
| "call Class v this = class_sel v this"
| "call Attr v this = attr v this"
| "call PseudoClass v this = pseudoClass v this"
| "call PseudoElement v this = pseudoElement v this"

fun create :: "op \<Rightarrow> string \<Rightarrow> builder" where
  "create Element v = cssSelectorBuilder_element v"
| "create Id v = cssSelectorBuilder_id v"
| "create Class v = cssSelectorBuilder_class v"
| "create Attr v = cssSelectorBuilder_attr v"
| "create PseudoClass v = cssSelectorBuilder_pseudoClass v"
| "create PseudoElement v = cssSelectorBuilder_pseudoElement v"

text \<open>
  A fluent chain \<^verbatim>\<open>b.op1(v1).op2(v2)...\<close>: the first call that throws ends the chain.
\<close>

fun chain :: "(op \<times> string) list \<Rightarrow> builder \<Rightarrow> error option \<times> builder" where
  "chain [] this = (None, this)"
| "chain ((f, v) # cs) this =
     (case call f v this of
        (None, this') \<Rightarrow> chain cs this'
      | (Some e, this') \<Rightarrow> (Some e, this'))"

text \<open>
  Calls made one after the other on the same object, each in its own \<^verbatim>\<open>try\<close>: the next
  call meets the state the previous one left, whether it returned or threw.
\<close>

fun attempts :: "(op \<times> string) list \<Rightarrow> builder \<Rightarrow> builder" where
  "attempts [] this = this"
| "attempts ((f, v) # cs) this = attempts cs (snd (call f v this))"

text \<open>The rendering table of the specification.\<close>

fun render :: "op \<Rightarrow> string \<Rightarrow> string" where
  "render Element v = v"
| "render Id v = ''#'' @ v"
| "render Class v = ''.'' @ v"
| "render Attr v = ''['' @ v @ '']''"
| "render PseudoClass v = '':'' @ v"
| "render PseudoElement v = ''::'' @ v"

subsection \<open>Vocabulary of the specification\<close>

text \<open>The type name the source gives to the fragments of an operation.\<close>

fun tag :: "op \<Rightarrow> string" where
  "tag Element = ''element''"
| "tag Id = ''id''"
| "tag Class = ''class''"
| "tag Attr = ''attr''"
| "tag PseudoClass = ''pseudoClass''"
| "tag PseudoElement = ''pseudoElement''"

text \<open>Singleton stages and repeatable stages.\<close>

fun singleton :: "op \<Rightarrow> bool" where
  "singleton Element = True"
| "singleton Id = True"
| "singleton PseudoElement = True"
| "singleton f = False"

fun repeatable :: "op \<Rightarrow> bool" where
  "repeatable Class = True"
| "repeatable Attr = True"
| "repeatable PseudoClass = True"
| "repeatable f = False"

text \<open>The builder contains a fragment of type \<open>t\<close>.\<close>

definition has_fragment :: "string \<Rightarrow> builder \<Rightarrow> bool" where
  "has_fragment t this = (Some t \<in> set (map type_of (selectors this)))"

text \<open>How many entries of type \<open>t\<close> the builder holds.\<close>

definition occurrences :: "string \<Rightarrow> builder \<Rightarrow> nat" where
  "occurrences t this = length (filter (\<lambda>e. type_of e = Some t) (selectors this))"

text \<open>
  The fragment sequence: the objects of \<^verbatim>\<open>this.selectors\<close> in order, without the numbers
  and strings that the array also holds.
\<close>

fun is_object :: "entry \<Rightarrow> bool" where
  "is_object (Obj t v) = True"
| "is_object (Num n) = False"
| "is_object (Str s) = False"

definition fragments :: "builder \<Rightarrow> entry list" where
  "fragments this = filter is_object (selectors this)"

text \<open>
  The position of a stage in the list element, id, class, attribute, pseudo-class,
  pseudo-element.
\<close>

fun stage_index :: "op \<Rightarrow> nat" where
  "stage_index Element = 0"
| "stage_index Id = 1"
| "stage_index Class = 2"
| "stage_index Attr = 3"
| "stage_index PseudoClass = 4"
| "stage_index PseudoElement = 5"

text \<open>
  The stage pointer of the specification, followed along a sequence of calls: it starts
  at the stage of the seeding factory call, an accepted call moves it to the stage of that
  call, a call that throws leaves it where it is.
\<close>

fun stage_pointer :: "op \<Rightarrow> (op \<times> string) list \<Rightarrow> builder \<Rightarrow> op" where
  "stage_pointer p [] this = p"
| "stage_pointer p ((f, v) # cs) this =
     (case call f v this of
        (None, this') \<Rightarrow> stage_pointer f cs this'
      | (Some e, this') \<Rightarrow> stage_pointer p cs this')"

text \<open>What the source keeps in place of the pointer: the array of the stage's map entry.\<close>

definition at_stage :: "op \<Rightarrow> builder \<Rightarrow> bool" where
  "at_stage p this = (avalableSelectors this = avalableSelectorsMap (tag p))"

subsection \<open>Builders within reach of a caller\<close>

text \<open>
  What a caller can hold: the result of a factory call, the result of \<^verbatim>\<open>combine\<close> on two
  builders it holds, and a builder it holds after a method returned.
\<close>

inductive reachable :: "builder \<Rightarrow> bool" where
  created: "reachable (create f v)"
| combined: "reachable selector1 \<Longrightarrow> reachable selector2 \<Longrightarrow>
     reachable (cssSelectorBuilder_combine selector1 combinator selector2)"
| called: "reachable this \<Longrightarrow> call f v this = (None, this') \<Longrightarrow> reachable this'"
| combine_called: "reachable this \<Longrightarrow> reachable (combine selector1 combinator selector2 this)"

subsection \<open>Objects and references\<close>

text \<open>
  Builders are objects: a variable holds a reference, a method changes the object behind
  \<^verbatim>\<open>this\<close> for every holder of the reference. The store is the list of the objects made so
  far and a reference is a position in it. \<^verbatim>\<open>new\<close> appends the constructed object and
  gives its position.
\<close>

type_synonym heap = "builder list"

definition new_builder :: "builder \<Rightarrow> heap \<Rightarrow> nat \<times> heap" where
  "new_builder this h = (length h, h @ [this])"

text \<open>
  A method call on the reference \<open>r\<close>: the object is left as the method left it, the
  call gives \<^verbatim>\<open>this\<close> back (\<open>Inr r\<close>) or throws.
\<close>

definition invoke :: "op \<Rightarrow> string \<Rightarrow> nat \<Rightarrow> heap \<Rightarrow> (error + nat) \<times> heap" where
  "invoke f v r h =
     (case call f v (h ! r) of
        (None, this') \<Rightarrow> (Inr r, h[r := this'])
      | (Some e, this') \<Rightarrow> (Inl e, h[r := this']))"

fun invoke_seq :: "(nat \<times> op \<times> string) list \<Rightarrow> heap \<Rightarrow> heap" where
  "invoke_seq [] h = h"
| "invoke_seq ((r, f, v) # cs) h = invoke_seq cs (snd (invoke f v r h))"

text \<open>
  The object literal \<^verbatim>\<open>cssSelectorBuilder\<close>: its property names and the functions behind
  them, each of which ends in \<^verbatim>\<open>new CssSelectorBuilder(...)\<close>. \<^verbatim>\<open>combine\<close> reads its two
  operands through their references.
\<close>

datatype entry_point =
  Fragment_entry "string \<Rightarrow> heap \<Rightarrow> nat \<times> heap"
| Combine_entry "nat \<Rightarrow> string \<Rightarrow> nat \<Rightarrow> heap \<Rightarrow> nat \<times> heap"

definition new_combine :: "nat \<Rightarrow> string \<Rightarrow> nat \<Rightarrow> heap \<Rightarrow> nat \<times> heap" where
  "new_combine selector1 combinator selector2 h =
     new_builder (cssSelectorBuilder_combine (h ! selector1) combinator (h ! selector2)) h"

definition cssSelectorBuilder :: "string \<rightharpoonup> entry_point" where
  "cssSelectorBuilder =
     [''element'' \<mapsto> Fragment_entry (\<lambda>v. new_builder (cssSelectorBuilder_element v)),
      ''id'' \<mapsto> Fragment_entry (\<lambda>v. new_builder (cssSelectorBuilder_id v)),
      ''class'' \<mapsto> Fragment_entry (\<lambda>v. new_builder (cssSelectorBuilder_class v)),
      ''attr'' \<mapsto> Fragment_entry (\<lambda>v. new_builder (cssSelectorBuilder_attr v)),
      ''pseudoClass'' \<mapsto> Fragment_entry (\<lambda>v. new_builder (cssSelectorBuilder_pseudoClass v)),
      ''pseudoElement'' \<mapsto> Fragment_entry (\<lambda>v. new_builder (cssSelectorBuilder_pseudoElement v)),
      ''combine'' \<mapsto> Combine_entry new_combine]"

text \<open>At most one fragment of each singleton stage.\<close>

definition singletons_ok :: "builder \<Rightarrow> bool" where
  "singletons_ok this =
     (occurrences ''element'' this \<le> 1 \<and> occurrences ''id'' this \<le> 1 \<and>
      occurrences ''pseudoElement'' this \<le> 1)"

text \<open>
  The stage order of the specification, as a condition on the calls alone. A call may
  follow a call of an earlier stage, and a repeatable call may follow a call of its own
  stage; \<open>stage_ordered p cs\<close> says so of every call of \<open>cs\<close>, the first one following
  the seeding factory call \<open>p\<close>. The singleton stages then occur at most once.
\<close>

fun follows :: "op \<Rightarrow> op \<Rightarrow> bool" where
  "follows p f = (stage_index p < stage_index f \<or> (p = f \<and> repeatable f))"

fun stage_ordered :: "op \<Rightarrow> (op \<times> string) list \<Rightarrow> bool" where
  "stage_ordered p [] = True"
| "stage_ordered p ((f, v) # cs) = (follows p f \<and> stage_ordered f cs)"

text \<open>
  The state of a builder whose last accepted call was \<open>p\<close>: the array of that stage, a
  fragment of that stage, no fragment of a later stage.
\<close>

definition in_stage :: "op \<Rightarrow> builder \<Rightarrow> bool" where
  "in_stage p this =
     (at_stage p this \<and> has_fragment (tag p) this \<and>
      (\<forall>g \<in> set [Element, Id, Class, Attr, PseudoClass, PseudoElement].
         stage_index p < stage_index g \<longrightarrow> \<not> has_fragment (tag g) this))"

section \<open>Basic facts\<close>

lemmas method_defs =
  element_def id_sel_def class_sel_def attr_def pseudoClass_def pseudoElement_def

lemmas facade_defs =
  CssSelectorBuilder_def cssSelectorBuilder_element_def cssSelectorBuilder_id_def
  cssSelectorBuilder_class_def cssSelectorBuilder_attr_def cssSelectorBuilder_pseudoClass_def
  cssSelectorBuilder_pseudoElement_def

lemma join_empty_append: "join_empty (xs @ ys) = join_empty xs @ join_empty ys"
  by (induction xs rule: join_empty.induct) simp_all

lemma find_type_None:
  "find (\<lambda>e. type_of e = Some t) xs = None \<longleftrightarrow> Some t \<notin> set (map type_of xs)"
  by (induction xs) auto

lemma find_type_None_filter:
  "find (\<lambda>e. type_of e = Some t) xs = None \<Longrightarrow> filter (\<lambda>e. type_of e = Some t) xs = []"
  by (induction xs) (auto split: if_splits)

lemma create_stringify: "stringify (create f v) = render f v"
  by (cases f) (simp_all add: stringify_def facade_defs)

lemma call_accepted_stringify:
  "call f v this = (None, this') \<Longrightarrow> stringify this' = stringify this @ render f v"
  by (cases f)
    (auto simp: method_defs stringify_def join_empty_append Let_def
      split: option.splits if_splits)

lemma call_throws_same: "call f v this = (Some e, this') \<Longrightarrow> this' = this"
  by (cases f) (auto simp: method_defs Let_def split: option.splits if_splits)

lemma chain_stringify:
  "chain cs this = (None, this') \<Longrightarrow>
   stringify this' = stringify this @ concat (map (\<lambda>(f, v). render f v) cs)"
proof (induction cs arbitrary: this)
  case Nil
  then show ?case by simp
next
  case (Cons c cs)
  obtain f v where c: "c = (f, v)" by (cases c)
  obtain r this1 where r: "call f v this = (r, this1)" by (cases "call f v this")
  with Cons.prems c have r0: "r = None" and ch: "chain cs this1 = (None, this')"
    by (auto split: option.splits)
  from Cons.IH [OF ch] call_accepted_stringify [OF r [unfolded r0]] c show ?case by simp
qed

lemma combine_stringify:
  "stringify (cssSelectorBuilder_combine s1 c s2) =
   stringify s1 @ '' '' @ c @ '' '' @ stringify s2"
  by (simp add: cssSelectorBuilder_combine_def CssSelectorBuilder_def stringify_def)

subsection \<open>Fragments stay\<close>

lemma call_duplicate:
  "singleton f \<Longrightarrow> has_fragment (tag f) this \<Longrightarrow>
   call f v this = (Some DuplicateSingletonError, this)"
  by (cases f) (simp_all add: method_defs has_fragment_def find_type_None Let_def)

lemma call_keeps_fragment: "has_fragment t this \<Longrightarrow> has_fragment t (snd (call f v this))"
  by (cases f) (auto simp: method_defs has_fragment_def Let_def split: option.splits)

lemma attempts_keeps_fragment: "has_fragment t this \<Longrightarrow> has_fragment t (attempts cs this)"
  by (induction cs arbitrary: this) (auto simp: call_keeps_fragment)

lemma create_has_fragment: "has_fragment (tag f) (create f v)"
  by (cases f) (simp_all add: facade_defs has_fragment_def)

lemma call_accepted_has_fragment:
  "call f v this = (None, this') \<Longrightarrow> has_fragment (tag f) this'"
  by (cases f) (auto simp: method_defs has_fragment_def Let_def split: option.splits if_splits)

subsection \<open>The pointer and the array of available selectors\<close>

lemma create_at_stage: "at_stage f (create f v)"
  by (cases f) (simp_all add: facade_defs at_stage_def)

lemma call_accepted_at_stage:
  "at_stage p this \<Longrightarrow> call f v this = (None, this') \<Longrightarrow> at_stage f this'"
  by (cases f; cases p)
    (auto simp: method_defs at_stage_def avalableSelectorsMap_def Let_def
      split: option.splits if_splits)

lemma attempts_at_stage:
  "at_stage p this \<Longrightarrow> at_stage (stage_pointer p cs this) (attempts cs this)"
proof (induction cs arbitrary: p this)
  case Nil
  then show ?case by simp
next
  case (Cons c cs)
  obtain f v where c: "c = (f, v)" by (cases c)
  obtain r this1 where r: "call f v this = (r, this1)" by (cases "call f v this")
  show ?case
  proof (cases r)
    case None
    with r Cons.prems have "at_stage f this1" by (auto dest: call_accepted_at_stage)
    from Cons.IH [OF this] r None c show ?thesis by simp
  next
    case (Some e)
    with r have "this1 = this" by (auto dest: call_throws_same)
    with Cons.IH [OF Cons.prems] r Some c show ?thesis by simp
  qed
qed

lemma call_before_stage:
  "at_stage p this \<Longrightarrow> stage_index f < stage_index p \<Longrightarrow>
   call f v this =
     (Some (if singleton f \<and> has_fragment (tag f) this
            then DuplicateSingletonError else OrderViolationError), this)"
  by (cases f; cases p)
    (simp_all add: method_defs at_stage_def avalableSelectorsMap_def has_fragment_def
      find_type_None Let_def)

lemma id_after_class:
  "at_stage Class this \<Longrightarrow>
   call Id v this =
     (Some (if has_fragment ''id'' this
            then DuplicateSingletonError else OrderViolationError), this)"
  using call_before_stage [of Class this Id v] by simp

subsection \<open>Repeats\<close>

lemma call_repeat:
  "repeatable f \<Longrightarrow> at_stage f this \<Longrightarrow>
   \<exists>this'. call f v this = (None, this') \<and> at_stage f this'
     \<and> fragments this' = fragments this @ [Obj (Some (tag f)) (render f v)]
     \<and> (f \<noteq> PseudoClass \<longrightarrow>
          selectors this' = selectors this @ [Obj (Some (tag f)) (render f v)])"
  by (cases f)
    (simp_all add: method_defs at_stage_def avalableSelectorsMap_def fragments_def Let_def)

lemma chain_repeat:
  "repeatable f \<Longrightarrow> at_stage f this \<Longrightarrow>
   \<exists>this'. chain (map (Pair f) vs) this = (None, this')
     \<and> fragments this' = fragments this @ map (\<lambda>v. Obj (Some (tag f)) (render f v)) vs
     \<and> (f \<noteq> PseudoClass \<longrightarrow>
          selectors this' = selectors this @ map (\<lambda>v. Obj (Some (tag f)) (render f v)) vs)"
proof (induction vs arbitrary: this)
  case Nil
  then show ?case by simp
next
  case (Cons v vs)
  from call_repeat [OF Cons.prems, of v] obtain this1 where
    c: "call f v this = (None, this1)" and a: "at_stage f this1"
    and fr: "fragments this1 = fragments this @ [Obj (Some (tag f)) (render f v)]"
    and se: "f \<noteq> PseudoClass \<longrightarrow>
      selectors this1 = selectors this @ [Obj (Some (tag f)) (render f v)]"
    by blast
  from Cons.IH [OF Cons.prems(1) a] obtain this2 where
    "chain (map (Pair f) vs) this1 = (None, this2)"
    "fragments this2 = fragments this1 @ map (\<lambda>v. Obj (Some (tag f)) (render f v)) vs"
    "f \<noteq> PseudoClass \<longrightarrow>
      selectors this2 = selectors this1 @ map (\<lambda>v. Obj (Some (tag f)) (render f v)) vs"
    by blast
  with c fr se show ?case by simp
qed

subsection \<open>Singleton counts\<close>

lemma call_singletons_ok:
  "singletons_ok this \<Longrightarrow> call f v this = (None, this') \<Longrightarrow> singletons_ok this'"
  by (cases f)
    (auto simp: method_defs singletons_ok_def occurrences_def Let_def find_type_None_filter
      split: option.splits if_splits)

lemma reachable_singletons_ok: "reachable this \<Longrightarrow> singletons_ok this"
proof (induction rule: reachable.induct)
  case (created f v)
  then show ?case by (cases f) (simp_all add: facade_defs singletons_ok_def occurrences_def)
next
  case (combined selector1 selector2 combinator)
  then show ?case
    by (simp add: cssSelectorBuilder_combine_def CssSelectorBuilder_def singletons_ok_def
      occurrences_def)
next
  case (called this f v this')
  then show ?case by (auto dest: call_singletons_ok)
next
  case (combine_called this selector1 combinator selector2)
  then show ?case by (simp add: combine_def singletons_ok_def occurrences_def)
qed

subsection \<open>Calls through references\<close>

lemma invoke_other: "x \<noteq> r \<Longrightarrow> snd (invoke f v x h) ! r = h ! r"
  by (simp add: invoke_def split: prod.splits option.splits)

lemma invoke_seq_other: "r \<notin> fst ` set cs \<Longrightarrow> invoke_seq cs h ! r = h ! r"
  by (induction cs arbitrary: h) (auto simp: invoke_other)

subsection \<open>Stage-ordered chains are the accepted chains\<close>

lemma create_in_stage: "in_stage f (create f v)"
  by (cases f) (simp_all add: facade_defs in_stage_def at_stage_def has_fragment_def)

lemma call_in_stage_accepts:
  "in_stage p this \<Longrightarrow> follows p f \<Longrightarrow>
   \<exists>this'. call f v this = (None, this') \<and> in_stage f this'"
  by (cases f; cases p)
    (simp_all add: method_defs in_stage_def at_stage_def avalableSelectorsMap_def
      has_fragment_def find_type_None Let_def)

lemma call_in_stage_rejects:
  "in_stage p this \<Longrightarrow> \<not> follows p f \<Longrightarrow> fst (call f v this) \<noteq> None"
  by (cases f; cases p)
    (simp_all add: method_defs in_stage_def at_stage_def avalableSelectorsMap_def
      has_fragment_def find_type_None Let_def)

lemma chain_ordered_accepted:
  "in_stage p this \<Longrightarrow> stage_ordered p cs \<Longrightarrow> \<exists>this'. chain cs this = (None, this')"
proof (induction cs arbitrary: p this)
  case Nil
  then show ?case by simp
next
  case (Cons c cs)
  obtain f v where c: "c = (f, v)" by (cases c)
  with Cons.prems have fo: "follows p f" and so: "stage_ordered f cs" by simp_all
  from call_in_stage_accepts [OF Cons.prems(1) fo, of v] obtain this1 where
    c1: "call f v this = (None, this1)" and i1: "in_stage f this1" by blast
  from Cons.IH [OF i1 so] obtain this' where "chain cs this1 = (None, this')" by blast
  with c c1 show ?case by simp
qed

lemma chain_accepted_ordered:
  "in_stage p this \<Longrightarrow> fst (chain cs this) = None \<Longrightarrow> stage_ordered p cs"
proof (induction cs arbitrary: p this)
  case Nil
  then show ?case by simp
next
  case (Cons c cs)
  obtain f v where c: "c = (f, v)" by (cases c)
  obtain r this1 where r: "call f v this = (r, this1)" by (cases "call f v this")
  with Cons.prems(2) c have r0: "r = None" and ch: "fst (chain cs this1) = None"
    by (auto split: option.splits)
  from r r0 call_in_stage_rejects [OF Cons.prems(1), of f v] have fo: "follows p f"
    by auto
  from call_in_stage_accepts [OF Cons.prems(1) fo, of v] r have "in_stage f this1" by auto
  from Cons.IH [OF this ch] fo c show ?case by simp
qed

section \<open>The claims\<close>

text \<open>
  C1. For every seeding factory call and every sequence of fragment calls that respects
  the stage order, no call throws and \<^verbatim>\<open>stringify()\<close> gives the rendered texts of the
  seeding call and of the chained calls, concatenated in call order without separators:
  element renders as the raw value, id as \<^verbatim>\<open>#value\<close>, class as \<^verbatim>\<open>.value\<close>, attribute as
  \<^verbatim>\<open>[value]\<close>, pseudo-class as \<^verbatim>\<open>:value\<close>, pseudo-element as \<^verbatim>\<open>::value\<close>. The
  stage-ordered sequences are exactly those on which no call throws (second conjunct),
  so the same text comes out of every chain that runs through (third conjunct). The two
  examples of the documentation are the last two conjuncts. (The number that
  \<^verbatim>\<open>pseudoClass\<close> pushes besides its fragment has no \<^verbatim>\<open>value\<close> and renders as nothing.)
\<close>

theorem C1_stringify_concatenates:
  "(\<forall>f0 v0 cs. stage_ordered f0 cs \<longrightarrow>
      (\<exists>this. chain cs (create f0 v0) = (None, this)
        \<and> stringify this = render f0 v0 @ concat (map (\<lambda>(f, v). render f v) cs)))
   \<and> (\<forall>f0 v0 cs. fst (chain cs (create f0 v0)) = None \<longrightarrow> stage_ordered f0 cs)
   \<and> (\<forall>f0 v0 cs this. chain cs (create f0 v0) = (None, this) \<longrightarrow>
        stringify this = render f0 v0 @ concat (map (\<lambda>(f, v). render f v) cs))
   \<and> map_prod id stringify
        (chain [(Attr, ''href$=\".png\"''), (PseudoClass, ''focus'')] (create Element ''a''))
      = (None, ''a[href$=\".png\"]:focus'')
   \<and> map_prod id stringify
        (chain [(Class, ''container''), (Class, ''editable'')] (create Id ''main''))
      = (None, ''#main.container.editable'')"
proof (intro conjI allI impI)
  fix f0 v0 cs
  assume "stage_ordered f0 cs"
  from chain_ordered_accepted [OF create_in_stage this, of v0] obtain this where
    c: "chain cs (create f0 v0) = (None, this)" by blast
  from chain_stringify [OF c]
  have "stringify this = render f0 v0 @ concat (map (\<lambda>(f, v). render f v) cs)"
    by (simp add: create_stringify)
  with c show "\<exists>this. chain cs (create f0 v0) = (None, this)
        \<and> stringify this = render f0 v0 @ concat (map (\<lambda>(f, v). render f v) cs)"
    by blast
next
  fix f0 v0 cs
  assume "fst (chain cs (create f0 v0)) = None"
  with create_in_stage show "stage_ordered f0 cs" by (rule chain_accepted_ordered)
next
  fix f0 v0 cs this
  assume "chain cs (create f0 v0) = (None, this)"
  from chain_stringify [OF this] show
    "stringify this = render f0 v0 @ concat (map (\<lambda>(f, v). render f v) cs)"
    by (simp add: create_stringify)
next
  show "map_prod id stringify
        (chain [(Attr, ''href$=\".png\"''), (PseudoClass, ''focus'')] (create Element ''a''))
      = (None, ''a[href$=\".png\"]:focus'')"
    by (simp add: method_defs facade_defs avalableSelectorsMap_def stringify_def)
next
  show "map_prod id stringify
        (chain [(Class, ''container''), (Class, ''editable'')] (create Id ''main''))
      = (None, ''#main.container.editable'')"
    by (simp add: method_defs facade_defs avalableSelectorsMap_def stringify_def)
qed

text \<open>
  C1 at \<^verbatim>\<open>element('table').id('data').class('c').class('d').attr('x').pseudoClass('hover')\<close>
  followed by \<^verbatim>\<open>.pseudoClass('focus').pseudoElement('after')\<close>: the sequence is stage
  ordered, it runs through, and the text is the concatenation.
\<close>

theorem C1_stringify_concatenates_witness:
  "stage_ordered Element
     [(Id, ''data''), (Class, ''c''), (Class, ''d''), (Attr, ''x''), (PseudoClass, ''hover''),
      (PseudoClass, ''focus''), (PseudoElement, ''after'')]
   \<and> (\<exists>this.
        chain [(Id, ''data''), (Class, ''c''), (Class, ''d''), (Attr, ''x''),
               (PseudoClass, ''hover''), (PseudoClass, ''focus''), (PseudoElement, ''after'')]
          (create Element ''table'') = (None, this)
        \<and> stringify this = ''table#data.c.d[x]:hover:focus::after'')"
proof -
  let ?cs = "[(Id, ''data''), (Class, ''c''), (Class, ''d''), (Attr, ''x''),
    (PseudoClass, ''hover''), (PseudoClass, ''focus''), (PseudoElement, ''after'')]"
  have so: "stage_ordered Element ?cs" by simp
  from C1_stringify_concatenates [THEN conjunct1, rule_format, OF so, of "''table''"]
  obtain this where "chain ?cs (create Element ''table'') = (None, this)"
    and "stringify this = render Element ''table'' @ concat (map (\<lambda>(f, v). render f v) ?cs)"
    by blast
  then have "chain ?cs (create Element ''table'') = (None, this)
    \<and> stringify this = ''table#data.c.d[x]:hover:focus::after''"
    by simp
  with so show ?thesis by blast
qed

text \<open>
  C2. A call of \<^verbatim>\<open>element\<close>, \<^verbatim>\<open>id\<close> or \<^verbatim>\<open>pseudoElement\<close> on a builder that already
  contains a fragment of that kind throws DuplicateSingletonError, whatever the array of
  available selectors holds, so the duplicate check comes before the order check. In
  particular a second \<^verbatim>\<open>element\<close> call throws it whatever calls were made in between,
  returning or throwing, both when the first call was the factory's and when it was an
  accepted call of the method.
\<close>

theorem C2_duplicate_singleton:
  "(\<forall>f v this. singleton f \<and> has_fragment (tag f) this \<longrightarrow>
      call f v this = (Some DuplicateSingletonError, this))
   \<and> (\<forall>v0 cs v.
        fst (call Element v (attempts cs (create Element v0))) = Some DuplicateSingletonError)
   \<and> (\<forall>this v1 this1 cs v. call Element v1 this = (None, this1) \<longrightarrow>
        fst (call Element v (attempts cs this1)) = Some DuplicateSingletonError)"
proof (intro conjI allI impI)
  fix f v this
  assume "singleton f \<and> has_fragment (tag f) this"
  then show "call f v this = (Some DuplicateSingletonError, this)"
    by (simp add: call_duplicate)
next
  fix v0 cs v
  have "has_fragment (tag Element) (attempts cs (create Element v0))"
    by (rule attempts_keeps_fragment) (rule create_has_fragment)
  from call_duplicate [OF _ this, of v]
  show "fst (call Element v (attempts cs (create Element v0))) = Some DuplicateSingletonError"
    by simp
next
  fix this v1 this1 cs v
  assume "call Element v1 this = (None, this1)"
  then have "has_fragment (tag Element) this1" by (rule call_accepted_has_fragment)
  then have "has_fragment (tag Element) (attempts cs this1)" by (rule attempts_keeps_fragment)
  from call_duplicate [OF _ this, of v]
  show "fst (call Element v (attempts cs this1)) = Some DuplicateSingletonError"
    by simp
qed

text \<open>
  C2 at \<^verbatim>\<open>id('x').class('c')\<close> followed by \<^verbatim>\<open>id('y')\<close>: the stage of id is passed and an id
  fragment is there; the error is the duplicate one.
\<close>

theorem C2_duplicate_singleton_witness:
  "singleton Id \<and> has_fragment (tag Id) (attempts [(Class, ''c'')] (create Id ''x''))
   \<and> ''id'' \<notin> set (the (avalableSelectors (attempts [(Class, ''c'')] (create Id ''x''))))
   \<and> fst (call Id ''y'' (attempts [(Class, ''c'')] (create Id ''x'')))
       = Some DuplicateSingletonError"
proof -
  let ?b = "attempts [(Class, ''c'')] (create Id ''x'')"
  have h: "singleton Id \<and> has_fragment (tag Id) ?b"
    by (simp add: method_defs facade_defs avalableSelectorsMap_def has_fragment_def)
  have a: "''id'' \<notin> set (the (avalableSelectors ?b))"
    by (simp add: method_defs facade_defs avalableSelectorsMap_def)
  from C2_duplicate_singleton [THEN conjunct1, rule_format, OF h, of "''y''"] h a
  show ?thesis by simp
qed

text \<open>
  C3 as stated fails. After \<^verbatim>\<open>id('x').class('c')\<close> the pointer is at class, the stage of
  id lies strictly before it, and \<^verbatim>\<open>id('y')\<close> throws DuplicateSingletonError, not
  OrderViolationError: this is a \<^verbatim>\<open>class(...)\<close> followed by an \<^verbatim>\<open>id(...)\<close> on one builder.
\<close>

theorem C3_order_violation_counterexample:
  "stage_index Id < stage_index (stage_pointer Id [(Class, ''c'')] (create Id ''x''))
   \<and> fst (call Id ''y'' (attempts [(Class, ''c'')] (create Id ''x'')))
       = Some DuplicateSingletonError
   \<and> fst (call Id ''y'' (attempts [(Class, ''c'')] (create Id ''x'')))
       \<noteq> Some OrderViolationError"
  by (simp add: method_defs facade_defs avalableSelectorsMap_def Let_def)

text \<open>
  C3, amended. On a builder seeded by a factory call and taken through any calls, a
  fragment operation whose stage lies strictly before the stage pointer throws and leaves
  the builder as it was: DuplicateSingletonError when the operation is \<^verbatim>\<open>element\<close> or
  \<^verbatim>\<open>id\<close> and the builder already contains a fragment of that kind, OrderViolationError
  otherwise. In particular an \<^verbatim>\<open>id(...)\<close> right after an accepted \<^verbatim>\<open>class(...)\<close> throws
  OrderViolationError when the builder contains no id fragment and
  DuplicateSingletonError when it contains one.
\<close>

theorem C3_order_violation_amended:
  "(\<forall>f0 v0 cs f v.
      stage_index f < stage_index (stage_pointer f0 cs (create f0 v0)) \<longrightarrow>
      call f v (attempts cs (create f0 v0)) =
        (Some (if singleton f \<and> has_fragment (tag f) (attempts cs (create f0 v0))
               then DuplicateSingletonError else OrderViolationError),
         attempts cs (create f0 v0)))
   \<and> (\<forall>this c this1 v.
        this1 = create Class c \<or> call Class c this = (None, this1) \<longrightarrow>
        call Id v this1 =
          (Some (if has_fragment ''id'' this1
                 then DuplicateSingletonError else OrderViolationError), this1))"
proof (intro conjI allI impI)
  fix f0 v0 cs f v
  assume less: "stage_index f < stage_index (stage_pointer f0 cs (create f0 v0))"
  have "at_stage (stage_pointer f0 cs (create f0 v0)) (attempts cs (create f0 v0))"
    by (rule attempts_at_stage) (rule create_at_stage)
  from call_before_stage [OF this less] show
    "call f v (attempts cs (create f0 v0)) =
        (Some (if singleton f \<and> has_fragment (tag f) (attempts cs (create f0 v0))
               then DuplicateSingletonError else OrderViolationError),
         attempts cs (create f0 v0))" .
next
  fix this c this1 v
  assume "this1 = create Class c \<or> call Class c this = (None, this1)"
  then have "at_stage Class this1"
  proof
    assume "this1 = create Class c"
    with create_at_stage [of Class c] show ?thesis by simp
  next
    assume "call Class c this = (None, this1)"
    then show ?thesis
      by (auto simp: class_sel_def at_stage_def Let_def split: option.splits if_splits)
  qed
  then show "call Id v this1 =
          (Some (if has_fragment ''id'' this1
                 then DuplicateSingletonError else OrderViolationError), this1)"
    by (rule id_after_class)
qed

text \<open>
  C3 (amended) at \<^verbatim>\<open>class('c').attr('x')\<close> followed by \<^verbatim>\<open>id('y')\<close>: pointer at attribute,
  no id fragment, OrderViolationError.
\<close>

theorem C3_order_violation_amended_witness:
  "stage_index Id < stage_index (stage_pointer Class [(Attr, ''x'')] (create Class ''c''))
   \<and> call Id ''y'' (attempts [(Attr, ''x'')] (create Class ''c''))
       = (Some OrderViolationError, attempts [(Attr, ''x'')] (create Class ''c''))"
proof -
  have less: "stage_index Id < stage_index (stage_pointer Class [(Attr, ''x'')] (create Class ''c''))"
    by (simp add: method_defs facade_defs avalableSelectorsMap_def)
  have no: "\<not> has_fragment (tag Id) (attempts [(Attr, ''x'')] (create Class ''c''))"
    by (simp add: method_defs facade_defs avalableSelectorsMap_def has_fragment_def)
  from C3_order_violation_amended [THEN conjunct1, rule_format, OF less, of "''y''"] less no
  show ?thesis by simp
qed

text \<open>
  C4. For any two builders and any combinator string, \<^verbatim>\<open>combine\<close> of the facade gives a
  builder whose \<^verbatim>\<open>stringify()\<close> is the text of the first, a space, the combinator, a space,
  the text of the second. The operands are arbitrary builders, so a combined builder
  serves as an operand like any other, and the nested example of the documentation gives
  the three spaces between \<^verbatim>\<open>tr:nth-of-type(even)\<close> and \<^verbatim>\<open>td:nth-of-type(even)\<close>.
\<close>

theorem C4_combine_stringify:
  "stringify (cssSelectorBuilder_combine selector1 combinator selector2) =
     stringify selector1 @ '' '' @ combinator @ '' '' @ stringify selector2
   \<and> (let (e1, table) = chain [(Id, ''data'')] (create Element ''table'');
           (e2, tr) = chain [(PseudoClass, ''nth-of-type(even)'')] (create Element ''tr'');
           (e3, td) = chain [(PseudoClass, ''nth-of-type(even)'')] (create Element ''td'')
       in e1 = None \<and> e2 = None \<and> e3 = None \<and>
          stringify
            (cssSelectorBuilder_combine table ''~'' (cssSelectorBuilder_combine tr '' '' td))
          = ''table#data ~ tr:nth-of-type(even)   td:nth-of-type(even)'')"
proof
  show "stringify (cssSelectorBuilder_combine selector1 combinator selector2) =
     stringify selector1 @ '' '' @ combinator @ '' '' @ stringify selector2"
    by (rule combine_stringify)
next
  show "let (e1, table) = chain [(Id, ''data'')] (create Element ''table'');
           (e2, tr) = chain [(PseudoClass, ''nth-of-type(even)'')] (create Element ''tr'');
           (e3, td) = chain [(PseudoClass, ''nth-of-type(even)'')] (create Element ''td'')
       in e1 = None \<and> e2 = None \<and> e3 = None \<and>
          stringify
            (cssSelectorBuilder_combine table ''~'' (cssSelectorBuilder_combine tr '' '' td))
          = ''table#data ~ tr:nth-of-type(even)   td:nth-of-type(even)''"
    by (simp add: combine_stringify)
      (simp add: method_defs facade_defs avalableSelectorsMap_def stringify_def)
qed

text \<open>
  C5. Let \<^verbatim>\<open>combine\<close> be called on the references \<open>a\<close> and \<open>b\<close> of two objects of the store
  \<open>h\<close> and give the reference \<open>r\<close>. After any sequence of fragment calls on \<open>a\<close> and
  \<open>b\<close>, returning or throwing, \<^verbatim>\<open>stringify()\<close> of the object behind \<open>r\<close> is still the text
  put together from the two operands as they were in \<open>h\<close> when \<^verbatim>\<open>combine\<close> was called.
\<close>

theorem C5_combine_captures:
  assumes "a < length h" and "b < length h"
    and "new_combine a c b h = (r, h1)"
    and "fst ` set cs \<subseteq> {a, b}"
  shows "stringify (invoke_seq cs h1 ! r) = stringify (h1 ! r)
    \<and> stringify (h1 ! r) = stringify (h ! a) @ '' '' @ c @ '' '' @ stringify (h ! b)"
proof -
  from assms(3) have r: "r = length h"
    and h1: "h1 = h @ [cssSelectorBuilder_combine (h ! a) c (h ! b)]"
    by (simp_all add: new_combine_def new_builder_def)
  from r assms(1,2,4) have "r \<notin> fst ` set cs" by auto
  then have "invoke_seq cs h1 ! r = h1 ! r" by (rule invoke_seq_other)
  with r h1 show ?thesis by (simp add: combine_stringify)
qed

text \<open>
  C5 on the store of \<^verbatim>\<open>element('a')\<close> and \<^verbatim>\<open>element('b')\<close>, combined with \<^verbatim>\<open>+\<close>, then
  \<^verbatim>\<open>class('x')\<close> on the first and \<^verbatim>\<open>id('y')\<close> on the second: both operands have changed,
  the combined selector has not.
\<close>

theorem C5_combine_captures_witness:
  "(0::nat) < length [create Element ''a'', create Element ''b'']
   \<and> (1::nat) < length [create Element ''a'', create Element ''b'']
   \<and> fst (new_combine 0 ''+'' 1 [create Element ''a'', create Element ''b'']) = 2
   \<and> fst ` set [(0, Class, ''x''), (1, Id, ''y'')] \<subseteq> {0, 1::nat}
   \<and> stringify (invoke_seq [(0, Class, ''x''), (1, Id, ''y'')]
        (snd (new_combine 0 ''+'' 1 [create Element ''a'', create Element ''b''])) ! 2) = ''a + b''
   \<and> stringify (invoke_seq [(0, Class, ''x''), (1, Id, ''y'')]
        (snd (new_combine 0 ''+'' 1 [create Element ''a'', create Element ''b''])) ! 0) = ''a.x''
   \<and> stringify (invoke_seq [(0, Class, ''x''), (1, Id, ''y'')]
        (snd (new_combine 0 ''+'' 1 [create Element ''a'', create Element ''b''])) ! 1) = ''b#y''"
proof -
  let ?h = "[create Element ''a'', create Element ''b'']"
  let ?cs = "[(0::nat, Class, ''x''), (1, Id, ''y'')]"
  have a: "(0::nat) < length ?h" and b: "(1::nat) < length ?h" by simp_all
  have f: "fst (new_combine 0 ''+'' 1 ?h) = 2"
    by (simp add: new_combine_def new_builder_def)
  then have n: "new_combine 0 ''+'' 1 ?h = (2, snd (new_combine 0 ''+'' 1 ?h))"
    by (simp add: prod_eq_iff)
  have s: "fst ` set ?cs \<subseteq> {0, 1::nat}" by simp
  have ops: "stringify (invoke_seq ?cs (snd (new_combine 0 ''+'' 1 ?h)) ! 0) = ''a.x''
    \<and> stringify (invoke_seq ?cs (snd (new_combine 0 ''+'' 1 ?h)) ! 1) = ''b#y''"
    by (simp add: new_combine_def new_builder_def invoke_def method_defs facade_defs
      avalableSelectorsMap_def stringify_def)
  from C5_combine_captures [OF a b n s] f ops
    create_stringify [of Element "''a''"] create_stringify [of Element "''b''"]
  show ?thesis by simp
qed

text \<open>
  C6. A fragment call that throws leaves the builder as it was before the call: the same
  entries, the same array of available selectors, hence the same \<^verbatim>\<open>stringify()\<close>. This
  holds for DuplicateSingletonError and OrderViolationError, and for the TypeError as
  well, since every \<^verbatim>\<open>throw\<close> of the class stands before the first assignment.
\<close>

theorem C6_failed_call_keeps_state:
  assumes "call f v this = (Some e, this')"
  shows "selectors this' = selectors this
    \<and> avalableSelectors this' = avalableSelectors this
    \<and> this' = this
    \<and> stringify this' = stringify this"
proof -
  from assms have "this' = this"
    by (cases f) (auto simp: method_defs Let_def split: option.splits if_splits)
  then show ?thesis by simp
qed

text \<open>
  C6 at \<^verbatim>\<open>class('c')\<close> followed by \<^verbatim>\<open>id('x')\<close> (order) and at \<^verbatim>\<open>id('x')\<close> followed by
  \<^verbatim>\<open>id('y')\<close> (duplicate).
\<close>

theorem C6_failed_call_keeps_state_witness:
  "fst (call Id ''x'' (create Class ''c'')) = Some OrderViolationError
   \<and> snd (call Id ''x'' (create Class ''c'')) = create Class ''c''
   \<and> stringify (snd (call Id ''x'' (create Class ''c''))) = ''.c''
   \<and> fst (call Id ''y'' (create Id ''x'')) = Some DuplicateSingletonError
   \<and> snd (call Id ''y'' (create Id ''x'')) = create Id ''x''"
proof -
  have o: "fst (call Id ''x'' (create Class ''c'')) = Some OrderViolationError"
    and d: "fst (call Id ''y'' (create Id ''x'')) = Some DuplicateSingletonError"
    by (simp_all add: method_defs facade_defs avalableSelectorsMap_def)
  from o have o': "call Id ''x'' (create Class ''c'')
      = (Some OrderViolationError, snd (call Id ''x'' (create Class ''c'')))"
    by (simp add: prod_eq_iff)
  from d have d': "call Id ''y'' (create Id ''x'')
      = (Some DuplicateSingletonError, snd (call Id ''y'' (create Id ''x'')))"
    by (simp add: prod_eq_iff)
  from C6_failed_call_keeps_state [OF o'] C6_failed_call_keeps_state [OF d'] o d
    create_stringify [of Class "''c''"]
  show ?thesis by simp
qed

text \<open>
  C7. On a builder on which \<^verbatim>\<open>class\<close>, \<^verbatim>\<open>attr\<close> or \<^verbatim>\<open>pseudoClass\<close> has just been accepted
  (as the seeding factory call or as a method call), the same operation repeated any
  number of times with any values never throws, and the fragments of the repeats follow
  the earlier fragments in call order. For \<^verbatim>\<open>class\<close> and \<^verbatim>\<open>attr\<close> the array
  \<^verbatim>\<open>this.selectors\<close> grows by exactly these fragments; \<^verbatim>\<open>pseudoClass\<close> pushes a number
  after each of its fragments, which is no fragment and has no text.
\<close>

theorem C7_repeats_accepted:
  assumes "repeatable f"
    and "this1 = create f v \<or> call f v this = (None, this1)"
  shows "\<exists>this2. chain (map (Pair f) vs) this1 = (None, this2)
    \<and> fragments this2 = fragments this1 @ map (\<lambda>v. Obj (Some (tag f)) (render f v)) vs
    \<and> stringify this2 = stringify this1 @ concat (map (render f) vs)
    \<and> (f \<noteq> PseudoClass \<longrightarrow>
         selectors this2 = selectors this1 @ map (\<lambda>v. Obj (Some (tag f)) (render f v)) vs)"
proof -
  from assms(2) have "at_stage f this1"
  proof
    assume "this1 = create f v"
    with create_at_stage [of f v] show ?thesis by simp
  next
    assume "call f v this = (None, this1)"
    with assms(1) show ?thesis
      by (cases f) (auto simp: method_defs at_stage_def Let_def split: option.splits if_splits)
  qed
  from chain_repeat [OF assms(1) this, of vs] obtain this2 where
    c: "chain (map (Pair f) vs) this1 = (None, this2)"
    and fr: "fragments this2 = fragments this1 @ map (\<lambda>v. Obj (Some (tag f)) (render f v)) vs"
    and se: "f \<noteq> PseudoClass \<longrightarrow>
      selectors this2 = selectors this1 @ map (\<lambda>v. Obj (Some (tag f)) (render f v)) vs"
    by blast
  have "(\<lambda>(f, v). render f v) \<circ> Pair f = render f" by (simp add: fun_eq_iff)
  with chain_stringify [OF c]
  have "stringify this2 = stringify this1 @ concat (map (render f) vs)" by simp
  with c fr se show ?thesis by blast
qed

text \<open>
  C7 at \<^verbatim>\<open>element('a').pseudoClass('hover')\<close> followed by \<^verbatim>\<open>pseudoClass('focus')\<close> and
  \<^verbatim>\<open>pseudoClass('active')\<close>.
\<close>

theorem C7_repeats_accepted_witness:
  "repeatable PseudoClass
   \<and> fst (call PseudoClass ''hover'' (create Element ''a'')) = None
   \<and> (\<exists>this2.
        chain [(PseudoClass, ''focus''), (PseudoClass, ''active'')]
          (snd (call PseudoClass ''hover'' (create Element ''a''))) = (None, this2)
        \<and> fragments this2 =
            [Obj (Some ''element'') ''a'', Obj (Some ''pseudoClass'') '':hover'',
             Obj (Some ''pseudoClass'') '':focus'', Obj (Some ''pseudoClass'') '':active'']
        \<and> stringify this2 = ''a:hover:focus:active'')"
proof -
  let ?this1 = "snd (call PseudoClass ''hover'' (create Element ''a''))"
  have r: "repeatable PseudoClass" by simp
  have ok: "fst (call PseudoClass ''hover'' (create Element ''a'')) = None"
    by (simp add: method_defs facade_defs avalableSelectorsMap_def)
  then have acc: "?this1 = create PseudoClass ''hover''
      \<or> call PseudoClass ''hover'' (create Element ''a'') = (None, ?this1)"
    by (simp add: prod_eq_iff)
  have fr: "fragments ?this1 = [Obj (Some ''element'') ''a'', Obj (Some ''pseudoClass'') '':hover'']"
    and st: "stringify ?this1 = ''a:hover''"
    by (simp_all add: method_defs facade_defs avalableSelectorsMap_def fragments_def stringify_def)
  from C7_repeats_accepted [OF r acc, of "[''focus'', ''active'']"] r ok fr st
  show ?thesis by simp
qed

text \<open>
  C8. Every builder a caller can reach through the facade and the methods of the class
  holds at most one element fragment, at most one id fragment and at most one
  pseudo-element fragment.
\<close>

theorem C8_singletons_at_most_once:
  assumes "reachable this"
  shows "occurrences ''element'' this \<le> 1
    \<and> occurrences ''id'' this \<le> 1
    \<and> occurrences ''pseudoElement'' this \<le> 1"
  using reachable_singletons_ok [OF assms] by (simp add: singletons_ok_def)

text \<open>
  C8 at \<^verbatim>\<open>element('a').id('x').pseudoElement('after')\<close>, which holds one of each.
\<close>

theorem C8_singletons_at_most_once_witness:
  "reachable (snd (chain [(Id, ''x''), (PseudoElement, ''after'')] (create Element ''a'')))
   \<and> occurrences ''element''
        (snd (chain [(Id, ''x''), (PseudoElement, ''after'')] (create Element ''a''))) = 1
   \<and> occurrences ''id''
        (snd (chain [(Id, ''x''), (PseudoElement, ''after'')] (create Element ''a''))) = 1
   \<and> occurrences ''pseudoElement''
        (snd (chain [(Id, ''x''), (PseudoElement, ''after'')] (create Element ''a''))) = 1"
proof -
  let ?b0 = "create Element ''a''"
  let ?b1 = "snd (call Id ''x'' ?b0)"
  let ?b2 = "snd (call PseudoElement ''after'' ?b1)"
  have c1: "call Id ''x'' ?b0 = (None, ?b1)"
    by (simp add: method_defs facade_defs avalableSelectorsMap_def)
  have c2: "call PseudoElement ''after'' ?b1 = (None, ?b2)"
    by (simp add: method_defs facade_defs avalableSelectorsMap_def)
  have "reachable ?b0" by (rule reachable.created)
  then have "reachable ?b1" using c1 by (rule reachable.called)
  then have "reachable ?b2" using c2 by (rule reachable.called)
  moreover have eq: "snd (chain [(Id, ''x''), (PseudoElement, ''after'')] ?b0) = ?b2"
    using c1 c2 by (simp add: method_defs facade_defs avalableSelectorsMap_def)
  ultimately have re: "reachable (snd (chain [(Id, ''x''), (PseudoElement, ''after'')] ?b0))"
    by simp
  have occ: "occurrences ''element'' ?b2 = 1 \<and> occurrences ''id'' ?b2 = 1
      \<and> occurrences ''pseudoElement'' ?b2 = 1"
    by (simp add: method_defs facade_defs avalableSelectorsMap_def occurrences_def)
  from C8_singletons_at_most_once [OF re] re occ eq show ?thesis by simp
qed

text \<open>
  C9 as stated fails on one name: the facade has no entry point \<^verbatim>\<open>attribute\<close>; the
  entry point for attribute fragments is \<^verbatim>\<open>attr\<close>, as in the example of the source's
  documentation.
\<close>

theorem C9_facade_counterexample:
  "cssSelectorBuilder ''attribute'' = None \<and> cssSelectorBuilder ''attr'' \<noteq> None"
  by (simp add: cssSelectorBuilder_def)

text \<open>
  C9, amended. The facade has exactly the seven entry points \<^verbatim>\<open>element\<close>, \<^verbatim>\<open>id\<close>,
  \<^verbatim>\<open>class\<close>, \<^verbatim>\<open>attr\<close>, \<^verbatim>\<open>pseudoClass\<close>, \<^verbatim>\<open>pseudoElement\<close> and \<^verbatim>\<open>combine\<close>. Each of the
  six fragment entry points gives a new builder (a reference the store did not have, the
  objects of the store untouched) seeded with its fragment, \<^verbatim>\<open>combine\<close> gives a new
  builder too, and \<^verbatim>\<open>stringify()\<close> of a new builder is the text of its seed.
\<close>

theorem C9_facade_amended:
  "dom cssSelectorBuilder =
     {''element'', ''id'', ''class'', ''attr'', ''pseudoClass'', ''pseudoElement'', ''combine''}
   \<and> (\<exists>g. cssSelectorBuilder (tag f) = Some (Fragment_entry g)
         \<and> g v h = (length h, h @ [create f v])
         \<and> stringify (snd (g v h) ! fst (g v h)) = render f v)
   \<and> (\<exists>g. cssSelectorBuilder ''combine'' = Some (Combine_entry g)
         \<and> g a c b h = (length h, h @ [cssSelectorBuilder_combine (h ! a) c (h ! b)])
         \<and> stringify (snd (g a c b h) ! fst (g a c b h))
             = stringify (h ! a) @ '' '' @ c @ '' '' @ stringify (h ! b))"
proof (intro conjI)
  show "dom cssSelectorBuilder =
     {''element'', ''id'', ''class'', ''attr'', ''pseudoClass'', ''pseudoElement'', ''combine''}"
    by (auto simp: cssSelectorBuilder_def)
next
  have "cssSelectorBuilder (tag f) = Some (Fragment_entry (\<lambda>v. new_builder (create f v)))"
    by (cases f) (simp_all add: cssSelectorBuilder_def)
  moreover have "new_builder (create f v) h = (length h, h @ [create f v])"
    by (simp add: new_builder_def)
  moreover have "stringify (snd (new_builder (create f v) h) ! fst (new_builder (create f v) h))
      = render f v"
    by (simp add: new_builder_def create_stringify)
  ultimately show "\<exists>g. cssSelectorBuilder (tag f) = Some (Fragment_entry g)
         \<and> g v h = (length h, h @ [create f v])
         \<and> stringify (snd (g v h) ! fst (g v h)) = render f v"
    by blast
next
  have "cssSelectorBuilder ''combine'' = Some (Combine_entry new_combine)"
    by (simp add: cssSelectorBuilder_def)
  moreover have "new_combine a c b h
      = (length h, h @ [cssSelectorBuilder_combine (h ! a) c (h ! b)])"
    by (simp add: new_combine_def new_builder_def)
  moreover have "stringify (snd (new_combine a c b h) ! fst (new_combine a c b h))
      = stringify (h ! a) @ '' '' @ c @ '' '' @ stringify (h ! b)"
    by (simp add: new_combine_def new_builder_def combine_stringify)
  ultimately show "\<exists>g. cssSelectorBuilder ''combine'' = Some (Combine_entry g)
         \<and> g a c b h = (length h, h @ [cssSelectorBuilder_combine (h ! a) c (h ! b)])
         \<and> stringify (snd (g a c b h) ! fst (g a c b h))
             = stringify (h ! a) @ '' '' @ c @ '' '' @ stringify (h ! b)"
    by blast
qed

text \<open>
  C10. On a builder made by \<^verbatim>\<open>combine\<close> of the facade, \<^verbatim>\<open>avalableSelectors\<close> is
  \<^verbatim>\<open>undefined\<close>, \<^verbatim>\<open>stringify()\<close> gives the stored text, and each of the six fragment
  operations throws the TypeError of reading \<^verbatim>\<open>includes\<close> from \<^verbatim>\<open>undefined\<close>, not one of
  the two errors of the class, and leaves the builder as it was.
\<close>

theorem C10_combined_builder_rejects_fragments:
  "call f v (cssSelectorBuilder_combine selector1 combinator selector2)
     = (Some TypeError, cssSelectorBuilder_combine selector1 combinator selector2)
   \<and> avalableSelectors (cssSelectorBuilder_combine selector1 combinator selector2) = None
   \<and> stringify (cssSelectorBuilder_combine selector1 combinator selector2)
       = stringify selector1 @ '' '' @ combinator @ '' '' @ stringify selector2"
  by (cases f)
    (simp_all add: method_defs cssSelectorBuilder_combine_def CssSelectorBuilder_def
      stringify_def)

end
